theory Spec2Isabelle
  imports Complex_Main
begin

section \<open>JavaScript numbers\<close>

text \<open>
  The analysis functions of \<^verbatim>\<open>ecgUtils.ts\<close> compute with JavaScript numbers, the binary64
  format of IEEE 754. A number is \<open>NaN\<close>, an infinity, or \<open>Fin x\<close> for the real \<open>x\<close> it
  denotes. Negation, absolute value, comparison and \<open>Math.round\<close> are exact; addition,
  subtraction, multiplication, division and the square root return the binary64 rounding
  of the exact result (to nearest, ties to even, overflow to infinity), so that on binary64
  operands they are the operations of the language. A decimal literal of the source such
  as \<open>0.6\<close> is the rounding of its decimal value. The sign of zero is not modelled: both
  zeros are \<open>Fin 0\<close>, and a division by zero takes the sign of a positive zero.
\<close>

datatype number = NaN | NegInf | Fin real | PosInf

text \<open>An infinity of the given sign (\<open>True\<close> is positive).\<close>

definition inf_of :: "bool \<Rightarrow> number" where
  "inf_of pos = (if pos then PosInf else NegInf)"

text \<open>The integer nearest to \<open>q\<close>, the even one of the two when \<open>q\<close> is half way.\<close>

definition round_even :: "real \<Rightarrow> int" where
  "round_even q =
     (if q - of_int \<lfloor>q\<rfloor> < 1 / 2 then \<lfloor>q\<rfloor>
      else if 1 / 2 < q - of_int \<lfloor>q\<rfloor> then \<lfloor>q\<rfloor> + 1
      else if even \<lfloor>q\<rfloor> then \<lfloor>q\<rfloor> else \<lfloor>q\<rfloor> + 1)"

text \<open>
  The binary64 rounding of a real: with \<open>e\<close> the exponent of \<open>x\<close>, not below \<open>-1022\<close>, the
  representable numbers around \<open>x\<close> are the integer multiples of \<open>2 ^ (e - 52)\<close>; a result
  of magnitude \<open>2 ^ 1024\<close> is an overflow.
\<close>

definition binary64 :: "real \<Rightarrow> number" where
  "binary64 x =
     (if x = 0 then Fin 0
      else
        (let u = 2 powr (of_int (max \<lfloor>log 2 \<bar>x\<bar>\<rfloor> (- 1022)) - 52);
             y = of_int (round_even (x / u)) * u
         in if 2 ^ 1024 \<le> \<bar>y\<bar> then inf_of (0 < x) else Fin y))"

fun num_neg :: "number \<Rightarrow> number" where
  "num_neg NaN = NaN"
| "num_neg NegInf = PosInf"
| "num_neg (Fin x) = Fin (- x)"
| "num_neg PosInf = NegInf"

fun num_add :: "number \<Rightarrow> number \<Rightarrow> number" where
  "num_add (Fin x) (Fin y) = binary64 (x + y)"
| "num_add (Fin x) b = b"
| "num_add NaN b = NaN"
| "num_add PosInf b = (if b = NaN \<or> b = NegInf then NaN else PosInf)"
| "num_add NegInf b = (if b = NaN \<or> b = PosInf then NaN else NegInf)"

definition num_sub :: "number \<Rightarrow> number \<Rightarrow> number" where
  "num_sub a b = num_add a (num_neg b)"

fun num_mul :: "number \<Rightarrow> number \<Rightarrow> number" where
  "num_mul (Fin x) (Fin y) = binary64 (x * y)"
| "num_mul NaN b = NaN"
| "num_mul a NaN = NaN"
| "num_mul (Fin x) PosInf = (if x = 0 then NaN else inf_of (0 < x))"
| "num_mul (Fin x) NegInf = (if x = 0 then NaN else inf_of (x < 0))"
| "num_mul PosInf (Fin y) = (if y = 0 then NaN else inf_of (0 < y))"
| "num_mul NegInf (Fin y) = (if y = 0 then NaN else inf_of (y < 0))"
| "num_mul PosInf PosInf = PosInf"
| "num_mul PosInf NegInf = NegInf"
| "num_mul NegInf PosInf = NegInf"
| "num_mul NegInf NegInf = PosInf"

fun num_div :: "number \<Rightarrow> number \<Rightarrow> number" where
  "num_div (Fin x) (Fin y) =
     (if y = 0 then (if x = 0 then NaN else inf_of (0 < x)) else binary64 (x / y))"
| "num_div NaN b = NaN"
| "num_div a NaN = NaN"
| "num_div (Fin x) b = Fin 0"
| "num_div PosInf (Fin y) = inf_of (0 \<le> y)"
| "num_div NegInf (Fin y) = inf_of (y < 0)"
| "num_div PosInf PosInf = NaN"
| "num_div PosInf NegInf = NaN"
| "num_div NegInf PosInf = NaN"
| "num_div NegInf NegInf = NaN"

text \<open>\<open>a < b\<close>, \<open>a > b\<close> and \<open>a <= b\<close>: every comparison with \<open>NaN\<close> is false.\<close>

fun num_lt :: "number \<Rightarrow> number \<Rightarrow> bool" where
  "num_lt (Fin x) (Fin y) = (x < y)"
| "num_lt NaN b = False"
| "num_lt a NaN = False"
| "num_lt a NegInf = False"
| "num_lt PosInf b = False"
| "num_lt NegInf b = True"
| "num_lt (Fin x) PosInf = True"

definition num_gt :: "number \<Rightarrow> number \<Rightarrow> bool" where
  "num_gt a b = num_lt b a"

definition num_le :: "number \<Rightarrow> number \<Rightarrow> bool" where
  "num_le a b = (a \<noteq> NaN \<and> b \<noteq> NaN \<and> \<not> num_lt b a)"

text \<open>
  \<open>Math.abs\<close>, \<open>Math.sqrt\<close>, \<open>Math.pow(x, 2)\<close> and \<open>Math.round\<close>. The square is taken to
  be the correctly rounded product. \<open>Math.round\<close> is the nearest integer, a half rounded
  up, which is a binary64 number whenever its argument is.
\<close>

fun Math_abs :: "number \<Rightarrow> number" where
  "Math_abs NaN = NaN"
| "Math_abs NegInf = PosInf"
| "Math_abs (Fin x) = Fin \<bar>x\<bar>"
| "Math_abs PosInf = PosInf"

fun Math_sqrt :: "number \<Rightarrow> number" where
  "Math_sqrt NaN = NaN"
| "Math_sqrt NegInf = NaN"
| "Math_sqrt (Fin x) = (if x < 0 then NaN else binary64 (sqrt x))"
| "Math_sqrt PosInf = PosInf"

fun Math_pow2 :: "number \<Rightarrow> number" where
  "Math_pow2 NaN = NaN"
| "Math_pow2 NegInf = PosInf"
| "Math_pow2 (Fin x) = binary64 (x * x)"
| "Math_pow2 PosInf = PosInf"

fun Math_round :: "number \<Rightarrow> number" where
  "Math_round (Fin x) = Fin (of_int \<lfloor>x + 1 / 2\<rfloor>)"
| "Math_round a = a"

text \<open>
  \<open>Math.max(...xs)\<close> and \<open>Math.min(...xs)\<close> pass every element of the array as an argument
  of one call. An engine accepts only so many arguments and throws a \<open>RangeError\<close> beyond;
  the bound depends on the engine and on its stack, so it is a parameter \<open>argLimit\<close> of the
  functions that spread an array. When the call goes through, the result is \<open>NaN\<close> as soon
  as one argument is \<open>NaN\<close>, and \<open>-Infinity\<close> or \<open>Infinity\<close> for no argument.
\<close>

datatype error = RangeError

definition num_max :: "number \<Rightarrow> number \<Rightarrow> number" where
  "num_max a b = (if a = NaN \<or> b = NaN then NaN else if num_lt a b then b else a)"

definition num_min :: "number \<Rightarrow> number \<Rightarrow> number" where
  "num_min a b = (if a = NaN \<or> b = NaN then NaN else if num_lt b a then b else a)"

definition max_of :: "number list \<Rightarrow> number" where
  "max_of xs = foldl num_max NegInf xs"

definition min_of :: "number list \<Rightarrow> number" where
  "min_of xs = foldl num_min PosInf xs"

definition Math_max :: "nat \<Rightarrow> number list \<Rightarrow> error + number" where
  "Math_max argLimit xs = (if argLimit < length xs then Inl RangeError else Inr (max_of xs))"

definition Math_min :: "nat \<Rightarrow> number list \<Rightarrow> error + number" where
  "Math_min argLimit xs = (if argLimit < length xs then Inl RangeError else Inr (min_of xs))"

text \<open>
  \<open>xs[i]\<close> as an operand of arithmetic or of a comparison: \<open>undefined\<close> outside the bounds,
  which \<open>-\<close>, \<open><\<close> and \<open>>\<close> convert to \<open>NaN\<close>.
\<close>

definition elem_at :: "number list \<Rightarrow> int \<Rightarrow> number" where
  "elem_at xs i = (if 0 \<le> i \<and> i < int (length xs) then xs ! nat i else NaN)"

text \<open>\<open>xs.reduce((a, b) => a + b, 0)\<close>.\<close>

definition reduce_add :: "number list \<Rightarrow> number" where
  "reduce_add xs = foldl num_add (Fin 0) xs"

section \<open>The beat detector\<close>

text \<open>
  \<open>detectRPeaks\<close>: the mean of the voltages, the centred signal, the threshold at 60% of
  the largest absolute value, and the scan of the samples \<open>1 .. time.length - 2\<close>. The
  loop's state is the list of accepted indices and the time of the last one.
\<close>

definition mean_of :: "number list \<Rightarrow> number" where
  "mean_of voltage = num_div (reduce_add voltage) (Fin (real (length voltage)))"

definition centered_of :: "number list \<Rightarrow> number list" where
  "centered_of voltage = map (\<lambda>v. num_sub v (mean_of voltage)) voltage"

definition threshold_of :: "number \<Rightarrow> number" where
  "threshold_of maxVal = num_mul maxVal (binary64 (6 / 10))"

definition refractoryPeriod :: number where
  "refractoryPeriod = binary64 (25 / 100)"

text \<open>The three tests on the centred signal at sample \<open>i\<close>, before the refractory test.\<close>

definition is_peak :: "number list \<Rightarrow> number \<Rightarrow> nat \<Rightarrow> bool" where
  "is_peak centered threshold i =
     (num_gt (elem_at centered (int i)) (elem_at centered (int i - 1)) \<and>
      num_gt (elem_at centered (int i)) (elem_at centered (int i + 1)) \<and>
      num_gt (elem_at centered (int i)) threshold)"

definition peak_step ::
  "number list \<Rightarrow> number list \<Rightarrow> number \<Rightarrow> nat list \<times> number \<Rightarrow> nat \<Rightarrow> nat list \<times> number" where
  "peak_step tm centered threshold st i =
     (if is_peak centered threshold i \<and>
         num_gt (num_sub (elem_at tm (int i)) (snd st)) refractoryPeriod
      then (fst st @ [i], elem_at tm (int i))
      else st)"

definition scan_peaks :: "number list \<Rightarrow> number list \<Rightarrow> number \<Rightarrow> nat list \<times> number" where
  "scan_peaks tm centered threshold =
     foldl (peak_step tm centered threshold) ([], num_neg refractoryPeriod)
       [1 ..< length tm - 1]"

definition detectRPeaks :: "nat \<Rightarrow> number list \<Rightarrow> number list \<Rightarrow> error + nat list" where
  "detectRPeaks argLimit tm voltage =
     (if length tm = 0 \<or> length voltage = 0 then Inr []
      else
        (case Math_max argLimit (map Math_abs (centered_of voltage)) of
           Inl e \<Rightarrow> Inl e
         | Inr maxVal \<Rightarrow>
             Inr (fst (scan_peaks tm (centered_of voltage) (threshold_of maxVal)))))"

section \<open>The segmenter\<close>

datatype WaveSegment = Seg_p | Seg_qrs | Seg_t | Seg_baseline

text \<open>
  A JavaScript array of labels: an element is a label or a hole (\<open>None\<close>), which an
  assignment past the end of the array leaves behind.
\<close>

type_synonym labels = "WaveSegment option list"

record ECGData =
  time :: "number list"
  voltage :: "number list"
  segments :: "labels option"

text \<open>
  \<open>segments[i] = v\<close>: inside the array the element is replaced, past its end the array
  grows to length \<open>i + 1\<close>. A negative \<open>i\<close> would set a property and leave the elements
  as they are.
\<close>

definition assign :: "labels \<Rightarrow> int \<Rightarrow> WaveSegment \<Rightarrow> labels" where
  "assign segs i v =
     (if i < 0 then segs
      else if nat i < length segs then segs[nat i := Some v]
      else segs @ replicate (nat i - length segs) None @ [Some v])"

text \<open>The body of the backward loop after the \<open>break\<close> test, and of the forward loop.\<close>

definition label_back :: "labels \<Rightarrow> int \<Rightarrow> number \<Rightarrow> labels" where
  "label_back segs i dt =
     (if num_gt dt (binary64 (1 / 10)) \<and> num_lt dt (binary64 (22 / 100)) then assign segs i Seg_p
      else if num_le dt (binary64 (6 / 100)) then assign segs i Seg_qrs
      else segs)"

definition label_fwd :: "labels \<Rightarrow> int \<Rightarrow> number \<Rightarrow> labels" where
  "label_fwd segs i dt =
     (if num_lt dt (binary64 (6 / 100)) then assign segs i Seg_qrs
      else if num_gt dt (binary64 (12 / 100)) \<and> num_lt dt (binary64 (42 / 100))
        then assign segs i Seg_t
      else segs)"

text \<open>\<open>for (let i = idx; i >= 0; i--)\<close> with its \<open>break\<close>.\<close>

function scan_back :: "number list \<Rightarrow> number \<Rightarrow> labels \<Rightarrow> int \<Rightarrow> labels" where
  "scan_back tm tR segs i =
     (if 0 \<le> i then
        (if num_gt (num_sub tR (elem_at tm i)) (binary64 (25 / 100)) then segs
         else scan_back tm tR (label_back segs i (num_sub tR (elem_at tm i))) (i - 1))
      else segs)"
  by pat_completeness auto
termination
  by (relation "measure (\<lambda>(tm, tR, segs, i). nat (i + 1))") auto

text \<open>\<open>for (let i = idx + 1; i < data.time.length; i++)\<close> with its \<open>break\<close>.\<close>

function scan_fwd :: "number list \<Rightarrow> number \<Rightarrow> labels \<Rightarrow> int \<Rightarrow> labels" where
  "scan_fwd tm tR segs i =
     (if i < int (length tm) then
        (if num_gt (num_sub (elem_at tm i) tR) (binary64 (45 / 100)) then segs
         else scan_fwd tm tR (label_fwd segs i (num_sub (elem_at tm i) tR)) (i + 1))
      else segs)"
  by pat_completeness auto
termination
  by (relation "measure (\<lambda>(tm, tR, segs, i). nat (int (length tm) - i))") auto

declare scan_back.simps [simp del] scan_fwd.simps [simp del]

text \<open>The body of \<open>rPeakIndices.forEach\<close>: both scans around the beat \<open>idx\<close>.\<close>

definition segment_beat :: "number list \<Rightarrow> labels \<Rightarrow> int \<Rightarrow> labels" where
  "segment_beat tm segs idx =
     scan_fwd tm (elem_at tm idx) (scan_back tm (elem_at tm idx) segs idx) (idx + 1)"

text \<open>
  \<open>[...(data.segments || new Array(data.time.length).fill('baseline'))]\<close>: an array is
  truthy also when it is empty, so the labels of the input are kept whenever there are any.
\<close>

definition initial_segments :: "ECGData \<Rightarrow> labels" where
  "initial_segments data =
     (case segments data of
        Some segs \<Rightarrow> segs
      | None \<Rightarrow> replicate (length (time data)) (Some Seg_baseline))"

definition segmentECGData :: "ECGData \<Rightarrow> int list \<Rightarrow> ECGData" where
  "segmentECGData data rPeakIndices =
     data\<lparr>segments := Some (foldl (segment_beat (time data)) (initial_segments data) rPeakIndices)\<rparr>"

section \<open>The statistics\<close>

record ECGStatistics =
  bpm :: number
  rrIntervals :: "number list"
  sdnn :: number
  rmssd :: number
  qrsDuration :: number
  duration :: number
  minRR :: number
  maxRR :: number

text \<open>The loop that fills \<open>rrIntervals\<close>, for \<open>i\<close> from \<open>1\<close> below \<open>rPeakIndices.length\<close>.\<close>

definition rr_of :: "int list \<Rightarrow> number list \<Rightarrow> number list" where
  "rr_of rPeakIndices tm =
     map (\<lambda>i. num_sub (elem_at tm (rPeakIndices ! i)) (elem_at tm (rPeakIndices ! (i - 1))))
       [1 ..< length rPeakIndices]"

definition squaredDiffs_of :: "number list \<Rightarrow> number list" where
  "squaredDiffs_of rr =
     map (\<lambda>x. Math_pow2 (num_sub x (num_div (reduce_add rr) (Fin (real (length rr)))))) rr"

text \<open>The loop that accumulates \<open>sumSquaredDiffs\<close>, for \<open>i\<close> from \<open>1\<close> below \<open>rrIntervals.length\<close>.\<close>

definition sumSquaredDiffs_of :: "number list \<Rightarrow> number" where
  "sumSquaredDiffs_of rr =
     foldl (\<lambda>s i. num_add s (Math_pow2 (num_mul (num_sub (rr ! i) (rr ! (i - 1))) (Fin 1000))))
       (Fin 0) [1 ..< length rr]"

definition duration_of :: "number list \<Rightarrow> number" where
  "duration_of tm =
     (if 0 < length tm then num_sub (elem_at tm (int (length tm) - 1)) (elem_at tm 0)
      else Fin 0)"

text \<open>
  \<open>calculateStats\<close>. The record of the second branch is built field by field; the two
  spread calls \<open>Math.min(...rrIntervals)\<close> and \<open>Math.max(...rrIntervals)\<close> come last and are
  the only places that can throw.
\<close>

definition calculateStats :: "nat \<Rightarrow> int list \<Rightarrow> number list \<Rightarrow> error + ECGStatistics" where
  "calculateStats argLimit rPeakIndices tm =
     (if length rPeakIndices < 2 then
        Inr \<lparr>bpm = Fin 0, rrIntervals = [], sdnn = Fin 0, rmssd = Fin 0, qrsDuration = Fin 80,
         duration = duration_of tm, minRR = Fin 0, maxRR = Fin 0\<rparr>
      else
        (let rr = rr_of rPeakIndices tm;
             bpm' = num_div (Fin 60) (num_div (reduce_add rr) (Fin (real (length rr))));
             sdnn' = num_mul
               (Math_sqrt (num_div (reduce_add (squaredDiffs_of rr))
                  (Fin (real (length (squaredDiffs_of rr))))))
               (Fin 1000);
             rmssd' = Math_sqrt (num_div (sumSquaredDiffs_of rr) (Fin (real (length rr) - 1)))
         in (case Math_min argLimit rr of
               Inl e \<Rightarrow> Inl e
             | Inr mn \<Rightarrow>
                 (case Math_max argLimit rr of
                    Inl e \<Rightarrow> Inl e
                  | Inr mx \<Rightarrow>
                      Inr \<lparr>bpm = Math_round bpm', rrIntervals = rr, sdnn = Math_round sdnn',
                        rmssd = Math_round rmssd', qrsDuration = Fin 90,
                        duration = duration_of tm, minRR = mn, maxRR = mx\<rparr>))))"

section \<open>Auxiliary notions for the proofs\<close>

text \<open>The state of the detector's loop when it reaches sample \<open>b\<close>.\<close>

definition scan_prefix :: "number list \<Rightarrow> number list \<Rightarrow> number \<Rightarrow> nat \<Rightarrow> nat list \<times> number" where
  "scan_prefix tm centered threshold b =
     foldl (peak_step tm centered threshold) ([], num_neg refractoryPeriod) [1 ..< b]"

text \<open>The threshold that \<open>detectRPeaks\<close> computes for a signal.\<close>

definition signal_threshold :: "number list \<Rightarrow> number" where
  "signal_threshold v = threshold_of (max_of (map Math_abs (centered_of v)))"

text \<open>Sample \<open>j\<close> lies more than the refractory period after sample \<open>i\<close>.\<close>

definition apart :: "number list \<Rightarrow> nat \<Rightarrow> nat \<Rightarrow> bool" where
  "apart tm i j = num_gt (num_sub (elem_at tm (int j)) (elem_at tm (int i))) refractoryPeriod"

text \<open>
  The statistics in the specification's words: the mean of a list of numbers, and the
  population standard deviation, the square root of the mean squared deviation from the
  mean, dividing by the number \<open>N\<close> of values; each operation is the binary64 one. The
  last definition is the population standard deviation of a list of reals in exact
  arithmetic.
\<close>

definition spec_mean :: "number list \<Rightarrow> number" where
  "spec_mean xs = num_div (reduce_add xs) (Fin (real (length xs)))"

definition spec_population_stddev :: "number list \<Rightarrow> number" where
  "spec_population_stddev xs =
     Math_sqrt (num_div (reduce_add (map (\<lambda>x. Math_pow2 (num_sub x (spec_mean xs))) xs))
       (Fin (real (length xs))))"

definition spec_real_stddev :: "real list \<Rightarrow> real" where
  "spec_real_stddev xs =
     sqrt ((\<Sum>x\<leftarrow>xs. (x - sum_list xs / real (length xs))\<^sup>2) / real (length xs))"

text \<open>
  The segmenter in the specification's words. Around a beat \<open>idx\<close> at time \<open>tR\<close>, the
  backward scan reaches the samples from \<open>idx\<close> toward \<open>0\<close> before the first one with
  \<open>tR - time[i] > 0.25\<close>; the forward scan reaches the samples from \<open>idx + 1\<close> on as long as
  \<open>time[i] - tR \<le> 0.45\<close>. The reached samples are labelled in that order, backward scan
  first, and the beats are taken in the order of the list; an assignment overwrites the
  label that is there.
\<close>

definition spec_label_back :: "labels \<Rightarrow> int \<Rightarrow> number \<Rightarrow> labels" where
  "spec_label_back segs i dt =
     (if num_lt (binary64 (1 / 10)) dt \<and> num_lt dt (binary64 (22 / 100)) then assign segs i Seg_p
      else if num_le dt (binary64 (6 / 100)) then assign segs i Seg_qrs
      else segs)"

definition spec_label_fwd :: "labels \<Rightarrow> int \<Rightarrow> number \<Rightarrow> labels" where
  "spec_label_fwd segs i dt =
     (if num_lt dt (binary64 (6 / 100)) then assign segs i Seg_qrs
      else if num_lt (binary64 (12 / 100)) dt \<and> num_lt dt (binary64 (42 / 100))
        then assign segs i Seg_t
      else segs)"

definition spec_back_reached :: "number list \<Rightarrow> int \<Rightarrow> int list" where
  "spec_back_reached tm idx =
     takeWhile (\<lambda>i. \<not> num_lt (binary64 (25 / 100)) (num_sub (elem_at tm idx) (elem_at tm i)))
       (rev [0 .. idx])"

definition spec_fwd_reached :: "number list \<Rightarrow> int \<Rightarrow> int list" where
  "spec_fwd_reached tm idx =
     takeWhile (\<lambda>i. num_le (num_sub (elem_at tm i) (elem_at tm idx)) (binary64 (45 / 100)))
       [idx + 1 .. int (length tm) - 1]"

definition spec_segment_beat :: "number list \<Rightarrow> labels \<Rightarrow> int \<Rightarrow> labels" where
  "spec_segment_beat tm segs idx =
     foldl (\<lambda>s i. spec_label_fwd s i (num_sub (elem_at tm i) (elem_at tm idx)))
       (foldl (\<lambda>s i. spec_label_back s i (num_sub (elem_at tm idx) (elem_at tm i))) segs
          (spec_back_reached tm idx))
       (spec_fwd_reached tm idx)"

definition spec_segments :: "ECGData \<Rightarrow> int list \<Rightarrow> labels" where
  "spec_segments data beats = foldl (spec_segment_beat (time data)) (initial_segments data) beats"

text \<open>A finite number, and an array of exactly \<open>n\<close> labels without a hole.\<close>

definition finite_number :: "number \<Rightarrow> bool" where
  "finite_number x = (case x of Fin r \<Rightarrow> True | _ \<Rightarrow> False)"

definition well_labelled :: "nat \<Rightarrow> labels \<Rightarrow> bool" where
  "well_labelled n segs = (length segs = n \<and> None \<notin> set segs)"

section \<open>Facts about the binary64 rounding\<close>

lemma round_even_of_int [simp]: "round_even (of_int n) = n"
  by (simp add: round_even_def)

lemma round_even_near:
  assumes "\<bar>q - of_int m\<bar> < 1 / 2"
  shows "round_even q = m"
proof -
  from assms have "\<lfloor>q\<rfloor> = m \<or> \<lfloor>q\<rfloor> = m - 1" by linarith
  then show ?thesis
  proof
    assume f: "\<lfloor>q\<rfloor> = m"
    with assms have "q - of_int \<lfloor>q\<rfloor> < 1 / 2" by linarith
    with f show ?thesis by (simp add: round_even_def)
  next
    assume f: "\<lfloor>q\<rfloor> = m - 1"
    from assms have "of_int m - 1 / 2 < q" by linarith
    then have "1 / 2 < q - of_int (m - 1)" by simp
    then have "1 / 2 < q - of_int \<lfloor>q\<rfloor>" by (simp only: f)
    then show ?thesis by (simp add: round_even_def f)
  qed
qed

lemma round_even_bound:
  assumes "\<bar>q\<bar> < of_int n"
  shows "\<bar>round_even q\<bar> \<le> n"
proof -
  have "\<lfloor>q\<rfloor> < n" "- n \<le> \<lfloor>q\<rfloor>" using assms by linarith+
  then show ?thesis by (auto simp: round_even_def)
qed

lemma floor_log2:
  assumes "0 < a" and "2 powr (of_int e) \<le> a" and "a < 2 powr (of_int e + 1)"
  shows "\<lfloor>log 2 a\<rfloor> = e"
proof -
  from assms have "of_int e \<le> log 2 a" by (simp add: le_log_iff)
  moreover from assms have "log 2 a < of_int e + 1" by (simp add: log_less_iff)
  ultimately show ?thesis by linarith
qed

lemma abs_div_pow2_le: "\<bar>a / 2 ^ n\<bar> \<le> \<bar>a :: real\<bar>"
proof -
  have "1 \<le> (2::real) ^ n" by simp
  then have "\<bar>a\<bar> / 2 ^ n \<le> \<bar>a\<bar> / 1" by (intro divide_left_mono) auto
  then show ?thesis by simp
qed

lemma binary64_not_NaN [simp]: "binary64 x \<noteq> NaN"
  by (simp add: binary64_def Let_def inf_of_def)

lemma binary64_exact:
  assumes x: "x = of_int m * 2 powr (of_int k)"
    and m: "\<bar>m\<bar> < 2 ^ 53" and k: "- 1074 \<le> k" and b: "\<bar>x\<bar> < 2 ^ 1024"
  shows "binary64 x = Fin x"
proof (cases "x = 0")
  case True
  then show ?thesis by (simp add: binary64_def)
next
  case False
  define e where "e = \<lfloor>log 2 \<bar>x\<bar>\<rfloor>"
  define j where "j = max e (- 1022) - 52"
  from False have pos: "0 < \<bar>x\<bar>" by simp
  have "\<bar>x\<bar> = of_int \<bar>m\<bar> * 2 powr (of_int k)" by (simp add: x abs_mult)
  also have "\<dots> < 2 ^ 53 * 2 powr (of_int k)"
  proof -
    from m have "(of_int \<bar>m\<bar> :: real) < 2 ^ 53" by (metis of_int_less_numeral_power_cancel_iff)
    then show ?thesis by simp
  qed
  also have "\<dots> = 2 powr (of_int (53 + k))"
    by (simp add: powr_add powr_realpow [symmetric])
  finally have "\<bar>x\<bar> < 2 powr (of_int (53 + k))" .
  with pos have "log 2 \<bar>x\<bar> < of_int (53 + k)" by (simp add: log_less_iff)
  then have "e < 53 + k" unfolding e_def by linarith
  with k have jk: "j \<le> k" by (simp add: j_def)
  define d where "d = nat (k - j)"
  from jk have kd: "k = j + int d" by (simp add: d_def)
  have pd: "2 powr (real d) = (2::real) ^ d" by (simp add: powr_realpow)
  have xs: "x = of_int (m * 2 ^ d) * 2 powr (of_int j)"
    by (simp add: x kd powr_add pd)
  then have q: "x / 2 powr (of_int j) = of_int (m * 2 ^ d)" by simp
  have y: "of_int (round_even (x / 2 powr (of_int j))) * 2 powr (of_int j) = x"
    unfolding q round_even_of_int by (rule xs [symmetric])
  have u: "of_int (max \<lfloor>log 2 \<bar>x\<bar>\<rfloor> (- 1022)) - 52 = (of_int j :: real)"
    by (simp add: j_def e_def)
  from False b show ?thesis
    unfolding binary64_def Let_def u y by simp
qed

lemma binary64_int: "\<bar>m\<bar> < 2 ^ 53 \<Longrightarrow> binary64 (of_int m) = Fin (of_int m)"
proof -
  assume m: "\<bar>m\<bar> < 2 ^ 53"
  then have "\<bar>of_int m :: real\<bar> < 2 ^ 53"
    by (metis of_int_abs of_int_less_numeral_power_cancel_iff)
  also have "(2::real) ^ 53 < 2 ^ 1024" by simp
  finally show ?thesis using binary64_exact [of "of_int m" m 0] m by simp
qed

lemma binary64_dyadic:
  assumes "\<bar>m\<bar> < 2 ^ 53" and "n \<le> 1074"
  shows "binary64 (of_int m / 2 ^ n) = Fin (of_int m / 2 ^ n)"
proof -
  have "2 powr (- real n) = inverse ((2::real) ^ n)"
    by (simp add: powr_minus powr_realpow)
  then have e: "(of_int m / 2 ^ n :: real) = of_int m * 2 powr (of_int (- int n))"
    by (simp add: divide_inverse)
  from assms(1) have "\<bar>of_int m :: real\<bar> < 2 ^ 53"
    by (metis of_int_abs of_int_less_numeral_power_cancel_iff)
  moreover have "\<bar>of_int m / 2 ^ n :: real\<bar> \<le> \<bar>of_int m\<bar>"
    by (rule abs_div_pow2_le)
  moreover have "(2::real) ^ 53 < 2 ^ 1024" by simp
  ultimately have "\<bar>of_int m / 2 ^ n :: real\<bar> < 2 ^ 1024" by linarith
  with binary64_exact [OF e assms(1)] assms(2) show ?thesis by simp
qed

lemma binary64_round:
  assumes n: "n \<le> 1074"
    and lo: "2 ^ 52 \<le> \<bar>x\<bar> * 2 ^ n" and hi: "\<bar>x\<bar> * 2 ^ n < 2 ^ 53"
  shows "binary64 x = Fin (of_int (round_even (x * 2 ^ n)) / 2 ^ n)"
proof -
  define e where "e = 52 - int n"
  from lo have x0: "x \<noteq> 0" by auto
  then have pos: "0 < \<bar>x\<bar>" by simp
  have pn: "2 powr (real n) = (2::real) ^ n" by (simp add: powr_realpow)
  have p52: "2 powr 52 = (2::real) ^ 52" using powr_realpow [of 2 52] by simp
  have p: "2 powr (of_int e) = (2::real) ^ 52 / 2 ^ n"
    unfolding e_def by (simp add: powr_diff pn p52 del: power_numeral)
  have p1: "2 powr (of_int e + 1) = (2::real) ^ 53 / 2 ^ n"
    by (simp add: powr_add p)
  have hi': "\<bar>x\<bar> < (2::real) ^ 53 / 2 ^ n" using hi by (simp add: field_simps)
  have lo': "(2::real) ^ 52 / 2 ^ n \<le> \<bar>x\<bar>" using lo by (simp add: field_simps)
  from lo' have "2 powr (of_int e) \<le> \<bar>x\<bar>" by (simp only: p)
  moreover from hi' have "\<bar>x\<bar> < 2 powr (of_int e + 1)" by (simp only: p1)
  ultimately have fl: "\<lfloor>log 2 \<bar>x\<bar>\<rfloor> = e" using pos by (intro floor_log2)
  from n have "max e (- 1022) = e" by (simp add: e_def)
  then have u: "2 powr (of_int (max \<lfloor>log 2 \<bar>x\<bar>\<rfloor> (- 1022)) - 52) = 1 / (2::real) ^ n"
    by (simp add: fl e_def powr_minus pn divide_inverse)
  have "\<bar>x * 2 ^ n\<bar> < of_int (2 ^ 53)" using hi by (simp add: abs_mult)
  from round_even_bound [OF this]
  have "\<bar>of_int (round_even (x * 2 ^ n)) :: real\<bar> \<le> 2 ^ 53"
    by (metis of_int_abs of_int_le_numeral_power_cancel_iff)
  moreover have "\<bar>of_int (round_even (x * 2 ^ n)) / 2 ^ n :: real\<bar>
      \<le> \<bar>of_int (round_even (x * 2 ^ n))\<bar>"
    by (rule abs_div_pow2_le)
  moreover have "(2::real) ^ 53 < 2 ^ 1024" by simp
  ultimately have "\<not> 2 ^ 1024 \<le> \<bar>of_int (round_even (x * 2 ^ n)) / 2 ^ n :: real\<bar>"
    by linarith
  with x0 show ?thesis
    unfolding binary64_def Let_def u by simp
qed

text \<open>The binary64 values of the decimal literals of the source.\<close>

lemma literal_0_6: "binary64 (6 / 10) = Fin (5404319552844595 / 2 ^ 53)"
  using binary64_round [of 53 "6 / 10"] by (simp add: round_even_def)

lemma literal_0_25: "binary64 (25 / 100) = Fin (1 / 4)"
  using binary64_dyadic [of 1 2] by simp

lemma literal_0_1: "binary64 (1 / 10) = Fin (3602879701896397 / 2 ^ 55)"
  using binary64_round [of 56 "1 / 10"] by (simp add: round_even_def)

lemma literal_0_22: "binary64 (22 / 100) = Fin (7926335344172073 / 2 ^ 55)"
  using binary64_round [of 55 "22 / 100"] by (simp add: round_even_def)

lemma literal_0_06: "binary64 (6 / 100) = Fin (1080863910568919 / 2 ^ 54)"
  using binary64_round [of 57 "6 / 100"] by (simp add: round_even_def)

lemma literal_0_45: "binary64 (45 / 100) = Fin (8106479329266893 / 2 ^ 54)"
  using binary64_round [of 54 "45 / 100"] by (simp add: round_even_def)

lemma literal_0_12: "binary64 (12 / 100) = Fin (1080863910568919 / 2 ^ 53)"
  using binary64_round [of 56 "12 / 100"] by (simp add: round_even_def)

lemma literal_0_42: "binary64 (42 / 100) = Fin (7566047373982433 / 2 ^ 54)"
  using binary64_round [of 54 "42 / 100"] by (simp add: round_even_def)

lemma literal_0_3: "binary64 (3 / 10) = Fin (5404319552844595 / 2 ^ 54)"
  using binary64_round [of 54 "3 / 10"] by (simp add: round_even_def)

lemma literal_0_717: "binary64 (717 / 1000) = Fin (6458161865649291 / 2 ^ 53)"
  using binary64_round [of 53 "717 / 1000"] by (simp add: round_even_def)

lemmas literals =
  literal_0_6 [simplified] literal_0_25 [simplified] literal_0_1 [simplified]
  literal_0_22 [simplified] literal_0_06 [simplified] literal_0_45 [simplified]
  literal_0_12 [simplified] literal_0_42 [simplified]

text \<open>Numbers of the examples that binary64 represents exactly.\<close>

lemma binary64_0 [simp]: "binary64 0 = Fin 0"
  by (simp add: binary64_def)

lemma binary64_examples:
  "binary64 1 = Fin 1" "binary64 (- 1) = Fin (- 1)" "binary64 2 = Fin 2"
  "binary64 (1 / 4) = Fin (1 / 4)" "binary64 (- (1 / 4)) = Fin (- (1 / 4))"
  "binary64 (5 / 4) = Fin (5 / 4)" "binary64 (1 / 8) = Fin (1 / 8)"
  "binary64 (3 / 4) = Fin (3 / 4)" "binary64 (1 / 64) = Fin (1 / 64)"
  "binary64 (5404319552844595 / 9007199254740992) = Fin (5404319552844595 / 9007199254740992)"
  using binary64_int [of 1] binary64_int [of "- 1"] binary64_int [of 2]
    binary64_dyadic [of 1 2] binary64_dyadic [of "- 1" 2] binary64_dyadic [of 5 2]
    binary64_dyadic [of 1 3] binary64_dyadic [of 3 2] binary64_dyadic [of 1 6]
    binary64_dyadic [of 5404319552844595 53]
  by simp_all

section \<open>Facts about numbers and arrays\<close>

lemma num_lt_irrefl [simp]: "\<not> num_lt a a"
  by (cases a) simp_all

lemma num_lt_NaN_right [simp]: "\<not> num_lt a NaN"
  by (cases a) simp_all

lemma num_mul_commute: "num_mul a b = num_mul b a"
  by (cases a; cases b) (simp_all add: mult.commute)

lemma num_add_NaN [simp]: "num_add a NaN = NaN"
  by (cases a) simp_all

lemma num_sub_NaN [simp]: "num_sub a NaN = NaN" "num_sub NaN b = NaN"
  by (simp_all add: num_sub_def)

lemma num_sub_Fin_not_NaN [simp]: "num_sub (Fin a) (Fin b) \<noteq> NaN"
  by (simp add: num_sub_def)

lemma num_cmp_NaN [simp]:
  "\<not> num_gt NaN b" "\<not> num_gt a NaN" "\<not> num_le NaN b" "\<not> num_le a NaN"
  by (simp_all add: num_gt_def num_le_def)

lemma not_gt_iff_le: "a \<noteq> NaN \<Longrightarrow> b \<noteq> NaN \<Longrightarrow> (\<not> num_gt a b) = num_le a b"
  by (simp add: num_gt_def num_le_def)

lemma elem_at_nth: "i < length xs \<Longrightarrow> elem_at xs (int i) = xs ! i"
  by (simp add: elem_at_def)

lemma elem_at_outside: "i < 0 \<or> int (length xs) \<le> i \<Longrightarrow> elem_at xs i = NaN"
  by (auto simp: elem_at_def)

lemma foldl_invariant:
  assumes "P s" and "\<And>s j. P s \<Longrightarrow> P (f s j)"
  shows "P (foldl f s xs)"
  using assms(1) by (induction xs arbitrary: s) (simp_all add: assms(2))

lemma foldl_unchanged: "(\<And>s j. f s j = s) \<Longrightarrow> foldl f s xs = s"
  by (induction xs) simp_all

section \<open>The detector's loop invariants\<close>

lemma is_peak_bounds:
  assumes "is_peak c thr i"
  shows "1 \<le> i \<and> i + 1 < length c"
proof -
  have l: "elem_at c (int i - 1) \<noteq> NaN" and r: "elem_at c (int i + 1) \<noteq> NaN"
    using assms by (auto simp: is_peak_def num_gt_def)
  from l have "0 \<le> int i - 1" by (auto simp: elem_at_def split: if_splits)
  moreover from r have "int i + 1 < int (length c)" by (auto simp: elem_at_def split: if_splits)
  ultimately show ?thesis by linarith
qed

lemma scan_prefix_Suc:
  "1 \<le> b \<Longrightarrow> scan_prefix tm c thr (Suc b) = peak_step tm c thr (scan_prefix tm c thr b) b"
  by (simp add: scan_prefix_def)

lemma scan_prefix_start: "b \<le> 1 \<Longrightarrow> scan_prefix tm c thr b = ([], num_neg refractoryPeriod)"
  by (simp add: scan_prefix_def)

lemma scan_prefix_members:
  "i \<in> set (fst (scan_prefix tm c thr b)) \<Longrightarrow> 1 \<le> i \<and> i < b \<and> is_peak c thr i"
proof (induction b arbitrary: i)
  case 0
  then show ?case by (simp add: scan_prefix_start)
next
  case (Suc b)
  show ?case
  proof (cases "1 \<le> b")
    case True
    with Suc show ?thesis
      by (auto simp: scan_prefix_Suc peak_step_def less_Suc_eq split: if_splits)
  next
    case False
    with Suc.prems show ?thesis by (simp add: scan_prefix_start)
  qed
qed

lemma scan_prefix_sorted: "sorted_wrt (<) (fst (scan_prefix tm c thr b))"
proof (induction b)
  case 0
  then show ?case by (simp add: scan_prefix_start)
next
  case (Suc b)
  show ?case
  proof (cases "1 \<le> b")
    case True
    with Suc scan_prefix_members [of _ tm c thr b] show ?thesis
      by (auto simp: scan_prefix_Suc peak_step_def sorted_wrt_append)
  next
    case False
    then show ?thesis by (simp add: scan_prefix_start)
  qed
qed

lemma scan_prefix_last:
  "snd (scan_prefix tm c thr b) =
     (if fst (scan_prefix tm c thr b) = [] then num_neg refractoryPeriod
      else elem_at tm (int (last (fst (scan_prefix tm c thr b)))))"
proof (induction b)
  case 0
  then show ?case by (simp add: scan_prefix_start)
next
  case (Suc b)
  show ?case
  proof (cases "1 \<le> b")
    case True
    with Suc show ?thesis
      by (simp add: scan_prefix_Suc peak_step_def)
  next
    case False
    then show ?thesis by (simp add: scan_prefix_start)
  qed
qed

lemma scan_prefix_apart: "successively (apart tm) (fst (scan_prefix tm c thr b))"
proof (induction b)
  case 0
  then show ?case by (simp add: scan_prefix_start)
next
  case (Suc b)
  show ?case
  proof (cases "1 \<le> b")
    case True
    with Suc scan_prefix_last [of tm c thr b] show ?thesis
      by (auto simp: scan_prefix_Suc peak_step_def successively_append_iff apart_def)
  next
    case False
    then show ?thesis by (simp add: scan_prefix_start)
  qed
qed

text \<open>The three outcomes of \<open>detectRPeaks\<close>.\<close>

lemma detectRPeaks_cases:
  "detectRPeaks L tm v =
     (if tm = [] \<or> v = [] then Inr []
      else if L < length v then Inl RangeError
      else Inr (fst (scan_prefix tm (centered_of v) (signal_threshold v) (length tm - 1))))"
  by (simp add: detectRPeaks_def Math_max_def scan_peaks_def scan_prefix_def signal_threshold_def
      centered_of_def)

lemma detectRPeaks_returns: "length v \<le> L \<Longrightarrow> \<exists>bs. detectRPeaks L tm v = Inr bs"
  by (simp add: detectRPeaks_cases)

lemma detectRPeaks_members:
  assumes "detectRPeaks L tm v = Inr bs" and "i \<in> set bs"
  shows "1 \<le> i \<and> i + 1 < length tm \<and> is_peak (centered_of v) (signal_threshold v) i"
proof -
  from assms have "i \<in> set (fst (scan_prefix tm (centered_of v) (signal_threshold v) (length tm - 1)))"
    by (auto simp: detectRPeaks_cases split: if_splits)
  from scan_prefix_members [OF this] show ?thesis by auto
qed

text \<open>
  Consecutive accepted beats are more than the refractory period apart: each beat is
  accepted by the test against the time of the one before.
\<close>

lemma detectRPeaks_refractory:
  assumes "detectRPeaks L tm v = Inr bs" and "Suc k < length bs"
  shows "num_gt (num_sub (elem_at tm (int (bs ! Suc k))) (elem_at tm (int (bs ! k))))
    (binary64 (25 / 100))"
proof -
  from assms(1) have "successively (apart tm) bs"
    by (auto simp: detectRPeaks_cases scan_prefix_apart split: if_splits)
  from successively_nth [OF this assms(2)] show ?thesis
    by (simp add: apart_def refractoryPeriod_def)
qed

text \<open>Signals that are too short or flat have no strict local maximum.\<close>

lemma centered_flat:
  "centered_of (replicate n v) = replicate n (num_sub v (mean_of (replicate n v)))"
  by (simp add: centered_of_def)

lemma is_peak_flat: "\<not> is_peak (replicate n x) thr i"
  by (auto simp: is_peak_def num_gt_def elem_at_def)

lemma no_peak_empty:
  assumes "\<And>i. \<not> is_peak (centered_of v) (signal_threshold v) i" and "length v \<le> L"
  shows "detectRPeaks L tm v = Inr []"
proof -
  from detectRPeaks_returns [OF assms(2)]
  obtain bs where b: "detectRPeaks L tm v = Inr bs" ..
  have "bs = []"
  proof (cases bs)
    case Nil
    then show ?thesis .
  next
    case (Cons i rest)
    then have "i \<in> set bs" by simp
    from detectRPeaks_members [OF b this] assms(1) show ?thesis by blast
  qed
  with b show ?thesis by simp
qed

lemma detectRPeaks_flat: "n \<le> L \<Longrightarrow> detectRPeaks L tm (replicate n x) = Inr []"
  by (rule no_peak_empty) (simp_all add: centered_flat is_peak_flat)

lemma detectRPeaks_short:
  assumes "length tm < 3 \<or> length v < 3" and "length v \<le> L"
  shows "detectRPeaks L tm v = Inr []"
proof -
  from detectRPeaks_returns [OF assms(2)]
  obtain bs where b: "detectRPeaks L tm v = Inr bs" ..
  have "bs = []"
  proof (cases bs)
    case Nil
    then show ?thesis .
  next
    case (Cons i rest)
    then have "i \<in> set bs" by simp
    from detectRPeaks_members [OF b this]
    have m: "1 \<le> i" "i + 1 < length tm"
      "is_peak (centered_of v) (signal_threshold v) i" by simp_all
    from is_peak_bounds [OF m(3)] have "i + 1 < length v" by (simp add: centered_of_def)
    with m have "3 \<le> length tm \<and> 3 \<le> length v" by linarith
    with assms(1) show ?thesis by simp
  qed
  with b show ?thesis by simp
qed

text \<open>An example signal with two beats, and one whose first peak lies at a negative time.\<close>

lemma example_centered:
  "centered_of [Fin (- 1), Fin 1, Fin (- 1), Fin 1, Fin (- 1), Fin 1] =
     [Fin (- 1), Fin 1, Fin (- 1), Fin 1, Fin (- 1), Fin 1]"
  by (simp add: centered_of_def mean_of_def reduce_add_def num_sub_def binary64_examples)

lemma example_threshold:
  "signal_threshold [Fin (- 1), Fin 1, Fin (- 1), Fin 1, Fin (- 1), Fin 1] =
     Fin (5404319552844595 / 2 ^ 53)"
  unfolding signal_threshold_def example_centered
  by (simp add: threshold_of_def max_of_def num_max_def literals binary64_examples)

lemma example_signal:
  "detectRPeaks 65535 [Fin 0, Fin 1, Fin 2, Fin 3, Fin 4, Fin 5]
     [Fin (- 1), Fin 1, Fin (- 1), Fin 1, Fin (- 1), Fin 1] = Inr [1, 3]"
proof -
  have i: "[1 ..< length [Fin 0, Fin 1, Fin 2, Fin 3, Fin 4, Fin 5] - 1] = [1, 2, 3, 4]"
    by (simp add: upt_conv_Cons)
  show ?thesis
    unfolding detectRPeaks_cases scan_prefix_def example_centered example_threshold i
    by (simp add: peak_step_def is_peak_def num_gt_def num_sub_def elem_at_def
        refractoryPeriod_def literals binary64_examples)
qed

lemma negative_time_centered:
  "centered_of [Fin (- 1), Fin 1, Fin (- 1), Fin 1] = [Fin (- 1), Fin 1, Fin (- 1), Fin 1]"
  by (simp add: centered_of_def mean_of_def reduce_add_def num_sub_def binary64_examples)

lemma negative_time_threshold:
  "signal_threshold [Fin (- 1), Fin 1, Fin (- 1), Fin 1] = Fin (5404319552844595 / 2 ^ 53)"
  unfolding signal_threshold_def negative_time_centered
  by (simp add: threshold_of_def max_of_def num_max_def literals binary64_examples)

section \<open>Properties of the detector\<close>

text \<open>
  C9. A flat signal of more samples than the engine takes as arguments of one call makes
  \<open>detectRPeaks\<close> throw a \<open>RangeError\<close> at \<open>Math.max(...centered.map(Math.abs))\<close> instead of
  returning the empty list; so does any other signal of that length on a non-empty time
  array. Within the bound, flat signals and signals of fewer than three samples do give
  the empty list (lemmas \<open>detectRPeaks_flat\<close> and \<open>detectRPeaks_short\<close>).
\<close>

theorem detectRPeaks_long_signal_throws:
  "tm \<noteq> [] \<Longrightarrow> L < length v \<Longrightarrow> detectRPeaks L tm v = Inl RangeError"
  by (auto simp: detectRPeaks_cases)

theorem detectRPeaks_long_signal_throws_witness:
  "replicate 125312 (Fin 0) \<noteq> [] \<and> 125311 < length (replicate 125312 (Fin 0)) \<and>
   detectRPeaks 125311 (replicate 125312 (Fin 0)) (replicate 125312 (Fin 0)) = Inl RangeError"
  using detectRPeaks_long_signal_throws [of "replicate 125312 (Fin 0)" 125311 "replicate 125312 (Fin 0)"]
  by simp

text \<open>
  C10. When the time and voltage arrays have the same length, every index of a list that
  \<open>detectRPeaks\<close> returns lies between \<open>1\<close> and \<open>length tm - 2\<close>, so the first and the last
  sample are never reported, and the list is strictly increasing. Every sample \<open>i\<close> the
  loop visits has both neighbours \<open>i - 1\<close> and \<open>i + 1\<close> inside the centred array, and every
  returned index is inside the time array, where the later lookups of the segmenter and
  of the statistics read it.
\<close>

theorem detectRPeaks_indices_in_range:
  assumes "length tm = length v" and "detectRPeaks L tm v = Inr bs"
  shows "(\<forall>i\<in>set bs. 1 \<le> i \<and> i + 2 \<le> length tm) \<and>
    0 \<notin> set bs \<and> length tm - 1 \<notin> set bs \<and>
    sorted_wrt (<) bs \<and>
    (\<forall>i\<in>set [1 ..< length tm - 1].
       0 \<le> int i - 1 \<and> int i + 1 < int (length (centered_of v))) \<and>
    (\<forall>i\<in>set bs. 0 \<le> int i \<and> int i < int (length tm) \<and> elem_at tm (int i) = tm ! i)"
proof -
  have range: "1 \<le> i \<and> i + 2 \<le> length tm" if "i \<in> set bs" for i
    using detectRPeaks_members [OF assms(2) that] by simp
  have sorted: "sorted_wrt (<) bs"
    using assms(2) by (auto simp: detectRPeaks_cases scan_prefix_sorted split: if_splits)
  have neighbours: "0 \<le> int i - 1 \<and> int i + 1 < int (length (centered_of v))"
    if "i \<in> set [1 ..< length tm - 1]" for i
    using that assms(1) by (auto simp: centered_of_def)
  have lookup: "0 \<le> int i \<and> int i < int (length tm) \<and> elem_at tm (int i) = tm ! i"
    if "i \<in> set bs" for i
    using range [OF that] by (simp add: elem_at_def)
  have ends: "0 \<notin> set bs \<and> length tm - 1 \<notin> set bs"
    using range by fastforce
  show ?thesis
    by (intro conjI ballI range neighbours lookup sorted ends [THEN conjunct1]
        ends [THEN conjunct2])
qed

theorem detectRPeaks_indices_in_range_witness:
  "length [Fin 0, Fin 1, Fin 2, Fin 3, Fin 4, Fin 5] =
     length [Fin (- 1), Fin 1, Fin (- 1), Fin 1, Fin (- 1), Fin 1] \<and>
   detectRPeaks 65535 [Fin 0, Fin 1, Fin 2, Fin 3, Fin 4, Fin 5]
     [Fin (- 1), Fin 1, Fin (- 1), Fin 1, Fin (- 1), Fin 1] = Inr [1, 3] \<and>
   sorted_wrt (<) [1, 3 :: nat] \<and> 5 \<notin> set [1, 3 :: nat]"
  using detectRPeaks_indices_in_range
    [of "[Fin 0, Fin 1, Fin 2, Fin 3, Fin 4, Fin 5]"
      "[Fin (- 1), Fin 1, Fin (- 1), Fin 1, Fin (- 1), Fin 1]" 65535 "[1, 3]"]
    example_signal
  by simp

text \<open>
  C3. Every index \<open>i\<close> of a list that \<open>detectRPeaks\<close> returns is a strict local maximum of
  the mean-centred signal: its centred value is greater than both neighbours', which
  exist, and greater than \<open>0.6\<close> times the largest absolute centred value of the whole
  signal.
\<close>

theorem detectRPeaks_local_max_above_threshold:
  assumes "detectRPeaks L tm v = Inr bs"
  shows "\<forall>i\<in>set bs.
     1 \<le> i \<and> i + 1 < length (centered_of v) \<and>
     num_gt (centered_of v ! i) (centered_of v ! (i - 1)) \<and>
     num_gt (centered_of v ! i) (centered_of v ! (i + 1)) \<and>
     num_gt (centered_of v ! i)
       (num_mul (binary64 (6 / 10)) (max_of (map Math_abs (centered_of v))))"
proof
  fix i
  assume "i \<in> set bs"
  from detectRPeaks_members [OF assms this]
  have p: "is_peak (centered_of v) (signal_threshold v) i" by simp
  from is_peak_bounds [OF p] have b: "1 \<le> i" "i + 1 < length (centered_of v)" by simp_all
  then have e: "int i - 1 = int (i - 1)" "int i + 1 = int (i + 1)" by simp_all
  from b have n: "elem_at (centered_of v) (int i) = centered_of v ! i"
    "elem_at (centered_of v) (int (i - 1)) = centered_of v ! (i - 1)"
    "elem_at (centered_of v) (int (i + 1)) = centered_of v ! (i + 1)"
    using elem_at_nth [of i "centered_of v"] elem_at_nth [of "i - 1" "centered_of v"]
      elem_at_nth [of "i + 1" "centered_of v"] by linarith+
  have t: "signal_threshold v =
      num_mul (binary64 (6 / 10)) (max_of (map Math_abs (centered_of v)))"
    unfolding signal_threshold_def threshold_of_def by (rule num_mul_commute)
  from p show "1 \<le> i \<and> i + 1 < length (centered_of v) \<and>
     num_gt (centered_of v ! i) (centered_of v ! (i - 1)) \<and>
     num_gt (centered_of v ! i) (centered_of v ! (i + 1)) \<and>
     num_gt (centered_of v ! i)
       (num_mul (binary64 (6 / 10)) (max_of (map Math_abs (centered_of v))))"
    unfolding is_peak_def e n t using b by simp
qed

theorem detectRPeaks_local_max_above_threshold_witness:
  "detectRPeaks 65535 [Fin 0, Fin 1, Fin 2, Fin 3, Fin 4, Fin 5]
     [Fin (- 1), Fin 1, Fin (- 1), Fin 1, Fin (- 1), Fin 1] = Inr [1, 3] \<and>
   num_gt (centered_of [Fin (- 1), Fin 1, Fin (- 1), Fin 1, Fin (- 1), Fin 1] ! 3)
     (num_mul (binary64 (6 / 10))
        (max_of (map Math_abs (centered_of [Fin (- 1), Fin 1, Fin (- 1), Fin 1, Fin (- 1), Fin 1]))))"
  using detectRPeaks_local_max_above_threshold
    [of 65535 "[Fin 0, Fin 1, Fin 2, Fin 3, Fin 4, Fin 5]"
      "[Fin (- 1), Fin 1, Fin (- 1), Fin 1, Fin (- 1), Fin 1]" "[1, 3]"]
    example_signal
  by simp

text \<open>
  C2. On the time axis \<open>-1, -0.5, 0, 0.5\<close> the sample \<open>1\<close> is a strict local maximum above
  the threshold and no beat precedes it, yet the detector rejects it: \<open>lastPeakTime\<close>
  starts at \<open>-0.25\<close> and \<open>-0.5 - (-0.25)\<close> is not greater than \<open>0.25\<close>. The first qualifying
  peak is not always eligible. The refractory invariant itself holds for every input
  (lemma \<open>detectRPeaks_refractory\<close>).
\<close>

theorem first_peak_rejected:
  "is_peak (centered_of [Fin (- 1), Fin 1, Fin (- 1), Fin 1])
     (signal_threshold [Fin (- 1), Fin 1, Fin (- 1), Fin 1]) 1 \<and>
   detectRPeaks 65535 [Fin (- 1), Fin (- (1 / 2)), Fin 0, Fin (1 / 2)]
     [Fin (- 1), Fin 1, Fin (- 1), Fin 1] = Inr []"
proof -
  have i: "[1 ..< length [Fin (- 1), Fin (- (1 / 2)), Fin 0, Fin (1 / 2)] - 1] = [1, 2]"
    by (simp add: upt_conv_Cons)
  show ?thesis
    unfolding detectRPeaks_cases scan_prefix_def negative_time_centered negative_time_threshold i
    by (simp add: peak_step_def is_peak_def num_gt_def num_sub_def elem_at_def
        refractoryPeriod_def literals binary64_examples)
qed

section \<open>Facts about the statistics\<close>

lemma length_rr_of [simp]: "length (rr_of b tm) = length b - 1"
  by (simp add: rr_of_def)

lemma rr_of_shift:
  "rr_of b tm = map (\<lambda>k. num_sub (elem_at tm (b ! Suc k)) (elem_at tm (b ! k))) [0 ..< length b - 1]"
proof -
  have "[1 ..< length b] = map Suc [0 ..< length b - 1]"
    by (cases "length b") (simp_all add: map_Suc_upt del: upt_Suc)
  then show ?thesis by (simp add: rr_of_def comp_def)
qed

text \<open>The three outcomes of \<open>calculateStats\<close>.\<close>

lemma calculateStats_degenerate_branch:
  "length b < 2 \<Longrightarrow>
     calculateStats L b tm =
       Inr \<lparr>bpm = Fin 0, rrIntervals = [], sdnn = Fin 0, rmssd = Fin 0, qrsDuration = Fin 80,
         duration = duration_of tm, minRR = Fin 0, maxRR = Fin 0\<rparr>"
  by (simp add: calculateStats_def)

lemma calculateStats_throws:
  "2 \<le> length b \<Longrightarrow> L < length b - 1 \<Longrightarrow> calculateStats L b tm = Inl RangeError"
  by (simp add: calculateStats_def Let_def Math_min_def)

lemma calculateStats_full:
  assumes "2 \<le> length b" and "length b \<le> Suc L"
  shows "\<exists>s. calculateStats L b tm = Inr s \<and>
     rrIntervals s = rr_of b tm \<and>
     sdnn s = Math_round (num_mul (spec_population_stddev (rr_of b tm)) (Fin 1000)) \<and>
     rmssd s =
       Math_round (Math_sqrt (num_div (sumSquaredDiffs_of (rr_of b tm))
         (Fin (real (length (rr_of b tm)) - 1)))) \<and>
     qrsDuration s = Fin 90"
  using assms
  by (simp add: calculateStats_def Let_def Math_min_def Math_max_def spec_population_stddev_def
      squaredDiffs_of_def spec_mean_def)

lemma calculateStats_returns:
  "length b \<le> Suc L \<Longrightarrow> \<exists>s. calculateStats L b tm = Inr s"
  using calculateStats_degenerate_branch [of b L tm] calculateStats_full [of b L tm]
  by (cases "length b < 2") auto

lemma calculateStats_returned:
  assumes "calculateStats L b tm = Inr s" and "2 \<le> length b"
  shows "length b \<le> Suc L"
proof (rule ccontr)
  assume "\<not> length b \<le> Suc L"
  then have "L < length b - 1" by simp
  from calculateStats_throws [OF assms(2) this] assms(1) show False by simp
qed

section \<open>Properties of the statistics\<close>

text \<open>
  C4. With fewer than two beat indices \<open>calculateStats\<close> returns the record of zeros with
  \<open>qrsDuration = 80\<close>, whatever the time array and the one index, if any; its duration is
  the last time minus the first, and \<open>0\<close> for an empty time array. It returns: no error
  is raised on this branch.
\<close>

theorem calculateStats_degenerate:
  "length b < 2 \<Longrightarrow>
     calculateStats L b tm =
       Inr \<lparr>bpm = Fin 0, rrIntervals = [], sdnn = Fin 0, rmssd = Fin 0, qrsDuration = Fin 80,
        duration = (if tm = [] then Fin 0 else num_sub (last tm) (hd tm)),
        minRR = Fin 0, maxRR = Fin 0\<rparr>"
  by (cases tm) (simp_all add: calculateStats_def duration_of_def elem_at_def last_conv_nth)

theorem calculateStats_degenerate_witness:
  "length [2 :: int] < 2 \<and>
   calculateStats 65535 [2] [Fin 1, Fin 3] =
     Inr \<lparr>bpm = Fin 0, rrIntervals = [], sdnn = Fin 0, rmssd = Fin 0, qrsDuration = Fin 80,
      duration = Fin 2, minRR = Fin 0, maxRR = Fin 0\<rparr> \<and>
   calculateStats 65535 [] [] =
     Inr \<lparr>bpm = Fin 0, rrIntervals = [], sdnn = Fin 0, rmssd = Fin 0, qrsDuration = Fin 80,
      duration = Fin 0, minRR = Fin 0, maxRR = Fin 0\<rparr>"
  using calculateStats_degenerate [of "[2]" 65535 "[Fin 1, Fin 3]"]
    calculateStats_degenerate [of "[]" 65535 "[]"]
  by (simp add: num_sub_def binary64_examples)

text \<open>
  C8, the counterexample. With no beat the placeholder is \<open>80\<close>, not \<open>90\<close>.
\<close>

theorem qrsDuration_not_always_90:
  "map_sum id qrsDuration (calculateStats 65535 [] []) = Inr (Fin 80) \<and> Fin 80 \<noteq> Fin 90"
  by (simp add: calculateStats_def)

text \<open>
  C8, as amended. Whenever \<open>calculateStats\<close> returns, \<open>qrsDuration\<close> is a constant that
  depends only on the number of beat indices, never on the time values, on which indices
  they are or on the labels: \<open>80\<close> with fewer than two beats and \<open>90\<close> otherwise. It
  returns whenever the RR intervals are no more than the engine takes as arguments.
\<close>

theorem qrsDuration_constant:
  "(calculateStats L b tm = Inr s \<longrightarrow>
      qrsDuration s = (if length b < 2 then Fin 80 else Fin 90)) \<and>
   (length b \<le> Suc L \<longrightarrow> (\<exists>s'. calculateStats L b tm = Inr s'))"
proof (intro conjI impI)
  assume r: "calculateStats L b tm = Inr s"
  show "qrsDuration s = (if length b < 2 then Fin 80 else Fin 90)"
  proof (cases "length b < 2")
    case True
    with r calculateStats_degenerate_branch [OF True, of L tm] show ?thesis by auto
  next
    case False
    then have l: "2 \<le> length b" by simp
    from calculateStats_full [OF l calculateStats_returned [OF r l], of tm] r False
    show ?thesis by auto
  qed
next
  assume "length b \<le> Suc L"
  then show "\<exists>s'. calculateStats L b tm = Inr s'" by (rule calculateStats_returns)
qed

theorem qrsDuration_constant_witness:
  "map_sum id qrsDuration (calculateStats 65535 [1] [Fin 0, Fin 1]) = Inr (Fin 80) \<and>
   map_sum id qrsDuration (calculateStats 65535 [0, 1] [Fin 0, Fin 1]) = Inr (Fin 90)"
proof -
  from qrsDuration_constant [of 65535 "[1]" "[Fin 0, Fin 1]"]
  obtain s1 where s1: "calculateStats 65535 [1] [Fin 0, Fin 1] = Inr s1" by auto
  from qrsDuration_constant [of 65535 "[0, 1]" "[Fin 0, Fin 1]"]
  obtain s2 where s2: "calculateStats 65535 [0, 1] [Fin 0, Fin 1] = Inr s2" by auto
  from qrsDuration_constant [of 65535 "[1]" "[Fin 0, Fin 1]" s1] s1
    qrsDuration_constant [of 65535 "[0, 1]" "[Fin 0, Fin 1]" s2] s2
  show ?thesis by simp
qed

text \<open>
  C1. With exactly two beat indices there is one RR interval, the sum of squared successive
  differences is the empty sum \<open>0\<close> and the code divides it by \<open>1 - 1 = 0\<close>: the call
  returns, and \<open>rmssd\<close> is \<open>NaN\<close> for every time array and every two indices, not the \<open>0\<close>
  of the branch for fewer than two beats.
\<close>

theorem rmssd_two_beats:
  "length b = 2 \<Longrightarrow> 1 \<le> L \<Longrightarrow> \<exists>s. calculateStats L b tm = Inr s \<and> rmssd s = NaN"
proof -
  assume l: "length b = 2" and L: "1 \<le> L"
  then have "sumSquaredDiffs_of (rr_of b tm) = Fin 0" by (simp add: sumSquaredDiffs_of_def)
  with calculateStats_full [of b L tm] l L show ?thesis by auto
qed

theorem rmssd_two_beats_witness:
  "length [1, 3 :: int] = 2 \<and> 1 \<le> (65535 :: nat) \<and>
   (\<exists>s. calculateStats 65535 [1, 3] [Fin 0, Fin (1 / 2), Fin 1, Fin (3 / 2), Fin 2] = Inr s \<and>
      rmssd s = NaN \<and> rmssd s \<noteq> Fin 0)"
  using rmssd_two_beats [of "[1, 3]" 65535 "[Fin 0, Fin (1 / 2), Fin 1, Fin (3 / 2), Fin 2]"]
  by auto

text \<open>
  An example with a tie. The time array is \<open>[0, 0.3, 0.717]\<close> with all three samples as
  beats. The two RR intervals differ by twice \<open>d = 131730289100587 / 2 ^ 51\<close>, a little
  less than \<open>0.117\<close>, and \<open>d\<close> is their standard deviation. The product \<open>d * 1000\<close> lies
  half way between two binary64 numbers and is rounded to \<open>58.5\<close>, which \<open>Math.round\<close>
  takes to \<open>59\<close>; the exact value of \<open>1000 * d\<close> is below \<open>58.5\<close>.
\<close>

lemma tie_rr:
  "rr_of [0, 1, 2] [Fin 0, binary64 (3 / 10), binary64 (717 / 1000)] =
     [Fin (5404319552844595 / 2 ^ 54), Fin (7512004178453987 / 2 ^ 54)]"
proof -
  have i: "[1 ..< length [0, 1, 2 :: int]] = [1, 2]" by (simp add: upt_conv_Cons)
  show ?thesis
    unfolding rr_of_def i literal_0_3 literal_0_717
    using binary64_dyadic [of 5404319552844595 54] binary64_dyadic [of 7512004178453987 54]
    by (simp add: elem_at_def num_sub_def)
qed

lemma tie_mean:
  "spec_mean [Fin (5404319552844595 / 2 ^ 54), Fin (7512004178453987 / 2 ^ 54)] =
     Fin (6458161865649291 / 2 ^ 54)"
  using binary64_dyadic [of 5404319552844595 54] binary64_dyadic [of 6458161865649291 53]
    binary64_dyadic [of 6458161865649291 54]
  by (simp add: spec_mean_def reduce_add_def)

lemma tie_square:
  "binary64 ((131730289100587 / 2 ^ 51) * (131730289100587 / 2 ^ 51)) =
     Fin (7891171238281563 / 2 ^ 61)"
  using binary64_round [of 61 "(131730289100587 / 2 ^ 51) * (131730289100587 / 2 ^ 51)"]
  by (simp add: round_even_def)

lemma tie_sqrt: "binary64 (sqrt (7891171238281563 / 2 ^ 61)) = Fin (131730289100587 / 2 ^ 51)"
proof -
  define r :: real where "r = sqrt (7891171238281563 / 2 ^ 61)"
  define p :: real where "p = r * 2 ^ 57"
  have "(8430738502437568 - 1 / 2) / 2 ^ 57 < r"
    unfolding r_def by (rule real_less_rsqrt) (simp add: power2_eq_square)
  then have lo: "8430738502437568 - 1 / 2 < p"
    unfolding p_def by (simp only: pos_divide_less_eq zero_less_power zero_less_numeral)
  have "r < (8430738502437568 + 1 / 2) / 2 ^ 57"
    unfolding r_def by (rule real_less_lsqrt) (simp_all add: power2_eq_square)
  then have hi: "p < 8430738502437568 + 1 / 2"
    unfolding p_def by (simp only: pos_less_divide_eq zero_less_power zero_less_numeral)
  from lo hi have "\<bar>p - 8430738502437568\<bar> < 1 / 2" by linarith
  then have "\<bar>p - of_int 8430738502437568\<bar> < 1 / 2" by simp
  then have m: "round_even p = 8430738502437568" by (rule round_even_near)
  from lo have "0 < p" by linarith
  then have "0 < r" unfolding p_def by (simp add: zero_less_mult_iff)
  then have a: "\<bar>r\<bar> * 2 ^ 57 = p" by (simp add: p_def)
  from lo have l: "2 ^ 52 \<le> \<bar>r\<bar> * 2 ^ 57" unfolding a by simp
  from hi have h: "\<bar>r\<bar> * 2 ^ 57 < 2 ^ 53" unfolding a by simp
  have "binary64 r = Fin (of_int (round_even (r * 2 ^ 57)) / 2 ^ 57)"
    by (rule binary64_round [OF _ l h]) simp
  then have "binary64 r = Fin (131730289100587 / 2 ^ 51)"
    unfolding p_def [symmetric] m by simp
  then show ?thesis by (simp only: r_def)
qed

lemma tie_stddev:
  "spec_population_stddev [Fin (5404319552844595 / 2 ^ 54), Fin (7512004178453987 / 2 ^ 54)] =
     Fin (131730289100587 / 2 ^ 51)"
proof -
  have d: "binary64 (- (131730289100587 / 2 ^ 51)) = Fin (- (131730289100587 / 2 ^ 51))"
    "binary64 (131730289100587 / 2 ^ 51) = Fin (131730289100587 / 2 ^ 51)"
    using binary64_dyadic [of "- 131730289100587" 51] binary64_dyadic [of 131730289100587 51]
    by simp_all
  have s: "binary64 (7891171238281563 / 2 ^ 61) = Fin (7891171238281563 / 2 ^ 61)"
    "binary64 (7891171238281563 / 2 ^ 60) = Fin (7891171238281563 / 2 ^ 60)"
    using binary64_dyadic [of 7891171238281563 61] binary64_dyadic [of 7891171238281563 60]
    by simp_all
  show ?thesis
    unfolding spec_population_stddev_def tie_mean
    using d s tie_square tie_sqrt
    by (simp add: num_sub_def reduce_add_def)
qed

lemma tie_times_1000: "binary64 (1000 * (131730289100587 / 2 ^ 51)) = Fin (117 / 2)"
  using binary64_round [of 47 "1000 * (131730289100587 / 2 ^ 51)"]
  by (simp add: round_even_def)

lemma tie_exact:
  "spec_real_stddev [5404319552844595 / 2 ^ 54, 7512004178453987 / 2 ^ 54] =
     131730289100587 / 2 ^ 51"
  unfolding spec_real_stddev_def
  by (rule real_sqrt_unique) (simp_all add: power2_eq_square)

lemma tie_stats:
  "\<exists>s. calculateStats 65535 [0, 1, 2] [Fin 0, binary64 (3 / 10), binary64 (717 / 1000)] = Inr s \<and>
     rrIntervals s = [Fin (5404319552844595 / 2 ^ 54), Fin (7512004178453987 / 2 ^ 54)] \<and>
     sdnn s = Fin 59"
proof -
  have l: "2 \<le> length [0, 1, 2 :: int]" "length [0, 1, 2 :: int] \<le> Suc 65535" by simp_all
  from calculateStats_full [OF l, of "[Fin 0, binary64 (3 / 10), binary64 (717 / 1000)]"]
  obtain s where s: "calculateStats 65535 [0, 1, 2]
        [Fin 0, binary64 (3 / 10), binary64 (717 / 1000)] = Inr s"
    and rr: "rrIntervals s =
      rr_of [0, 1, 2] [Fin 0, binary64 (3 / 10), binary64 (717 / 1000)]"
    and sd: "sdnn s = Math_round (num_mul (spec_population_stddev
      (rr_of [0, 1, 2] [Fin 0, binary64 (3 / 10), binary64 (717 / 1000)])) (Fin 1000))"
    by blast
  have "sdnn s = Fin 59"
    unfolding sd tie_rr tie_stddev using tie_times_1000 by simp
  with s rr show ?thesis by (simp add: tie_rr)
qed

text \<open>
  C7, the counterexample. For the time array \<open>[0, 0.3, 0.717]\<close> and the beats \<open>0, 1, 2\<close>
  the code returns \<open>sdnn = 59\<close>, while \<open>1000\<close> times the population standard deviation of
  the two RR intervals it returns, rounded to the nearest integer, is \<open>58\<close>.
\<close>

theorem sdnn_not_exact_stddev:
  "map_sum id rrIntervals
     (calculateStats 65535 [0, 1, 2] [Fin 0, binary64 (3 / 10), binary64 (717 / 1000)]) =
     Inr [Fin (5404319552844595 / 2 ^ 54), Fin (7512004178453987 / 2 ^ 54)] \<and>
   map_sum id sdnn
     (calculateStats 65535 [0, 1, 2] [Fin 0, binary64 (3 / 10), binary64 (717 / 1000)]) =
     Inr (Fin 59) \<and>
   \<lfloor>1000 * spec_real_stddev [5404319552844595 / 2 ^ 54, 7512004178453987 / 2 ^ 54] + 1 / 2\<rfloor> = 58"
proof -
  have "\<lfloor>1000 * spec_real_stddev [5404319552844595 / 2 ^ 54, 7512004178453987 / 2 ^ 54]
      + 1 / 2\<rfloor> = 58"
    unfolding tie_exact by simp
  with tie_stats show ?thesis by auto
qed

text \<open>
  C7, as amended. With at least two beat indices, whenever \<open>calculateStats\<close> returns,
  \<open>rrIntervals[k]\<close> is \<open>time[beatIndices[k + 1]] - time[beatIndices[k]]\<close> for each pair of
  consecutive beats, and \<open>sdnn\<close> is \<open>Math.round\<close> of \<open>1000\<close> times the population standard
  deviation of these intervals, the standard deviation dividing by \<open>N\<close> and every
  operation rounding to binary64. It returns whenever the RR intervals are no more than
  the engine takes as arguments.
\<close>

theorem sdnn_population_stddev:
  "2 \<le> length b \<Longrightarrow>
     (calculateStats L b tm = Inr s \<longrightarrow>
        rrIntervals s =
          map (\<lambda>k. num_sub (elem_at tm (b ! Suc k)) (elem_at tm (b ! k))) [0 ..< length b - 1] \<and>
        sdnn s = Math_round (num_mul (Fin 1000) (spec_population_stddev (rrIntervals s)))) \<and>
     (length b \<le> Suc L \<longrightarrow> (\<exists>s'. calculateStats L b tm = Inr s'))"
proof (intro conjI impI)
  assume l: "2 \<le> length b" and r: "calculateStats L b tm = Inr s"
  from calculateStats_full [OF l calculateStats_returned [OF r l], of tm] r
  have rr: "rrIntervals s = rr_of b tm"
    and sd: "sdnn s = Math_round (num_mul (spec_population_stddev (rr_of b tm)) (Fin 1000))"
    by auto
  show "rrIntervals s =
      map (\<lambda>k. num_sub (elem_at tm (b ! Suc k)) (elem_at tm (b ! k))) [0 ..< length b - 1]"
    unfolding rr by (rule rr_of_shift)
  show "sdnn s = Math_round (num_mul (Fin 1000) (spec_population_stddev (rrIntervals s)))"
    unfolding sd rr by (simp only: num_mul_commute)
next
  assume "length b \<le> Suc L"
  then show "\<exists>s'. calculateStats L b tm = Inr s'" by (rule calculateStats_returns)
qed

theorem sdnn_population_stddev_witness:
  "2 \<le> length [0, 1, 2 :: int] \<and>
   (\<exists>s. calculateStats 65535 [0, 1, 2] [Fin 0, binary64 (3 / 10), binary64 (717 / 1000)] = Inr s \<and>
      rrIntervals s = [Fin (5404319552844595 / 2 ^ 54), Fin (7512004178453987 / 2 ^ 54)] \<and>
      sdnn s = Math_round (num_mul (Fin 1000) (spec_population_stddev (rrIntervals s))) \<and>
      sdnn s = Fin 59)"
proof -
  have l: "2 \<le> length [0, 1, 2 :: int]" by simp
  from tie_stats obtain s
    where s: "calculateStats 65535 [0, 1, 2]
        [Fin 0, binary64 (3 / 10), binary64 (717 / 1000)] = Inr s"
      and rr: "rrIntervals s = [Fin (5404319552844595 / 2 ^ 54), Fin (7512004178453987 / 2 ^ 54)]"
      and sd: "sdnn s = Fin 59"
    by blast
  from sdnn_population_stddev [OF l, of 65535 "[Fin 0, binary64 (3 / 10), binary64 (717 / 1000)]" s] s
  have "sdnn s = Math_round (num_mul (Fin 1000) (spec_population_stddev (rrIntervals s)))"
    by blast
  with l s rr sd show ?thesis by blast
qed

section \<open>Facts about the segmenter\<close>

lemma label_back_NaN [simp]: "label_back segs i NaN = segs"
  by (simp add: label_back_def)

lemma label_fwd_NaN [simp]: "label_fwd segs i NaN = segs"
  by (simp add: label_fwd_def)

lemma spec_label_back_eq: "spec_label_back = label_back"
  by (simp add: fun_eq_iff spec_label_back_def label_back_def num_gt_def)

lemma spec_label_fwd_eq: "spec_label_fwd = label_fwd"
  by (simp add: fun_eq_iff spec_label_fwd_def label_fwd_def num_gt_def)

text \<open>Each loop with its \<open>break\<close> is a fold over the indices before the break.\<close>

lemma scan_back_fold:
  "scan_back tm tR segs i =
     foldl (\<lambda>s j. label_back s j (num_sub tR (elem_at tm j))) segs
       (takeWhile (\<lambda>j. \<not> num_gt (num_sub tR (elem_at tm j)) (binary64 (25 / 100)))
          (rev [0 .. i]))"
proof (induction tm tR segs i rule: scan_back.induct)
  case (1 tm tR segs i)
  show ?case
  proof (cases "0 \<le> i")
    case True
    then have r: "rev [0 .. i] = i # rev [0 .. i - 1]" by (simp add: upto_rec2)
    show ?thesis
    proof (cases "num_gt (num_sub tR (elem_at tm i)) (binary64 (25 / 100))")
      case True
      with \<open>0 \<le> i\<close> show ?thesis by (subst scan_back.simps) (simp add: r)
    next
      case False
      with \<open>0 \<le> i\<close> "1.IH" show ?thesis by (subst scan_back.simps) (simp add: r)
    qed
  next
    case False
    then show ?thesis by (subst scan_back.simps) simp
  qed
qed

lemma scan_fwd_fold:
  "scan_fwd tm tR segs i =
     foldl (\<lambda>s j. label_fwd s j (num_sub (elem_at tm j) tR)) segs
       (takeWhile (\<lambda>j. \<not> num_gt (num_sub (elem_at tm j) tR) (binary64 (45 / 100)))
          [i .. int (length tm) - 1])"
proof (induction tm tR segs i rule: scan_fwd.induct)
  case (1 tm tR segs i)
  show ?case
  proof (cases "i < int (length tm)")
    case True
    then have r: "[i .. int (length tm) - 1] = i # [i + 1 .. int (length tm) - 1]"
      by (simp add: upto_rec1)
    show ?thesis
    proof (cases "num_gt (num_sub (elem_at tm i) tR) (binary64 (45 / 100))")
      case True
      with \<open>i < int (length tm)\<close> show ?thesis by (subst scan_fwd.simps) (simp add: r)
    next
      case False
      with \<open>i < int (length tm)\<close> "1.IH" show ?thesis by (subst scan_fwd.simps) (simp add: r)
    qed
  next
    case False
    then show ?thesis by (subst scan_fwd.simps) simp
  qed
qed

lemma finite_elem_at:
  assumes "list_all finite_number tm" and "0 \<le> j" and "j < int (length tm)"
  shows "\<exists>r. elem_at tm j = Fin r"
proof -
  from assms have "finite_number (tm ! nat j)" by (simp add: list_all_length)
  with assms(2,3) show ?thesis
    by (cases "tm ! nat j") (simp_all add: finite_number_def elem_at_def)
qed

lemma fwd_reached_finite:
  assumes "list_all finite_number tm" and "0 \<le> idx" and "idx < int (length tm)"
  shows "takeWhile (\<lambda>j. \<not> num_gt (num_sub (elem_at tm j) (elem_at tm idx)) (binary64 (45 / 100)))
           [idx + 1 .. int (length tm) - 1] = spec_fwd_reached tm idx"
  unfolding spec_fwd_reached_def
proof (rule takeWhile_cong [OF refl])
  fix j
  assume "j \<in> set [idx + 1 .. int (length tm) - 1]"
  with assms(2) have j: "0 \<le> j" "j < int (length tm)" by simp_all
  from finite_elem_at [OF assms(1) j] obtain a where a: "elem_at tm j = Fin a" ..
  from finite_elem_at [OF assms] obtain r where r: "elem_at tm idx = Fin r" ..
  show "(\<not> num_gt (num_sub (elem_at tm j) (elem_at tm idx)) (binary64 (45 / 100))) =
      num_le (num_sub (elem_at tm j) (elem_at tm idx)) (binary64 (45 / 100))"
    unfolding a r by (rule not_gt_iff_le) simp_all
qed

lemma fwd_reached_outside:
  assumes "idx < 0 \<or> int (length tm) \<le> idx"
  shows "spec_fwd_reached tm idx = []"
proof -
  from assms have "elem_at tm idx = NaN" by (rule elem_at_outside)
  then show ?thesis by (simp add: spec_fwd_reached_def takeWhile_eq_Nil_iff)
qed

lemma segment_beat_spec:
  assumes "list_all finite_number tm"
  shows "segment_beat tm segs idx = spec_segment_beat tm segs idx"
proof (cases "0 \<le> idx \<and> idx < int (length tm)")
  case True
  with fwd_reached_finite [OF assms, of idx] show ?thesis
    by (simp add: segment_beat_def spec_segment_beat_def scan_back_fold scan_fwd_fold
        spec_label_back_eq spec_label_fwd_eq spec_back_reached_def num_gt_def)
next
  case False
  then have out: "idx < 0 \<or> int (length tm) \<le> idx" by linarith
  then have n: "elem_at tm idx = NaN" by (rule elem_at_outside)
  have "foldl (\<lambda>s j. label_fwd s j (num_sub (elem_at tm j) NaN)) s0 js = s0" for s0 js
    by (rule foldl_unchanged) simp
  with fwd_reached_outside [OF out] show ?thesis
    by (simp add: segment_beat_def spec_segment_beat_def scan_back_fold scan_fwd_fold
        spec_label_back_eq spec_label_fwd_eq spec_back_reached_def num_gt_def n)
qed

text \<open>The scans write inside the time array only, so they keep one label per sample.\<close>

lemma assign_well:
  "well_labelled n segs \<Longrightarrow> well_labelled n (assign segs i v) \<or> int n \<le> i"
  by (auto simp: well_labelled_def assign_def dest: set_update_subset_insert [THEN subsetD])

lemma label_back_well:
  assumes "well_labelled (length tm) segs"
  shows "well_labelled (length tm) (label_back segs j (num_sub tR (elem_at tm j)))"
proof (cases "int (length tm) \<le> j")
  case True
  then have "elem_at tm j = NaN" by (simp add: elem_at_outside)
  with assms show ?thesis by simp
next
  case False
  with assms assign_well [OF assms, of j] show ?thesis by (auto simp: label_back_def)
qed

lemma label_fwd_well:
  assumes "well_labelled (length tm) segs"
  shows "well_labelled (length tm) (label_fwd segs j (num_sub (elem_at tm j) tR))"
proof (cases "int (length tm) \<le> j")
  case True
  then have "elem_at tm j = NaN" by (simp add: elem_at_outside)
  with assms show ?thesis by simp
next
  case False
  with assms assign_well [OF assms, of j] show ?thesis by (auto simp: label_fwd_def)
qed

lemma segment_beat_well:
  assumes "well_labelled (length tm) segs"
  shows "well_labelled (length tm) (segment_beat tm segs idx)"
  unfolding segment_beat_def scan_back_fold scan_fwd_fold
  by (intro foldl_invariant [where P = "well_labelled (length tm)"] assms
      label_back_well label_fwd_well)

lemma initial_segments_well:
  assumes "segments d = None \<or>
    (\<exists>s. segments d = Some s \<and> length s = length (time d) \<and> None \<notin> set s)"
  shows "well_labelled (length (time d)) (initial_segments d)"
  using assms by (auto simp: initial_segments_def well_labelled_def)

text \<open>An example with one beat, with a break in each scan.\<close>

lemma example_segments:
  "segments (segmentECGData
     \<lparr>time = [Fin (- 1), Fin 0, Fin (1 / 8), Fin (1 / 4), Fin (1 / 2), Fin 1],
      voltage = [Fin 0, Fin 0, Fin 0, Fin 1, Fin 0, Fin 0], segments = None\<rparr> [3]) =
   Some [Some Seg_baseline, Some Seg_baseline, Some Seg_p, Some Seg_qrs, Some Seg_t,
     Some Seg_baseline]"
  by (simp add: segmentECGData_def initial_segments_def segment_beat_def scan_back.simps
      scan_fwd.simps label_back_def label_fwd_def assign_def elem_at_def num_sub_def num_gt_def
      num_le_def numeral_eq_Suc literals binary64_examples)

section \<open>Properties of the segmenter\<close>

text \<open>
  C5, the counterexample. An input that already carries labels keeps them: with no beat
  the one sample labelled \<open>qrs\<close> stays \<open>qrs\<close>, it is not relabelled \<open>baseline\<close>; and an input
  whose label array is empty gets the empty array back although it has one sample.
\<close>

theorem preset_labels_kept:
  "segments (segmentECGData \<lparr>time = [Fin 0], voltage = [Fin 0], segments = Some [Some Seg_qrs]\<rparr> []) =
     Some [Some Seg_qrs] \<and>
   segments (segmentECGData \<lparr>time = [Fin 0], voltage = [Fin 0], segments = Some []\<rparr> []) = Some []"
  by (simp add: segmentECGData_def initial_segments_def)

text \<open>
  C5, as amended. When the input carries no labels, or one label per sample, the result
  of \<open>segmentECGData\<close> has exactly one label per sample for every list of beat indices,
  in or out of range: its length is that of the time array and it has no hole. For an
  empty signal it is the empty array. With no beat index it is the input's own labels when
  there are any, and \<open>baseline\<close> for every sample otherwise. Time and voltage are returned
  unchanged.
\<close>

theorem segmentECGData_coverage:
  assumes "segments d = None \<or>
    (\<exists>s. segments d = Some s \<and> length s = length (time d) \<and> None \<notin> set s)"
  shows "(\<exists>out. segments (segmentECGData d beats) = Some out \<and>
            length out = length (time d) \<and> None \<notin> set out) \<and>
    (time d = [] \<longrightarrow> segments (segmentECGData d beats) = Some []) \<and>
    segments (segmentECGData d []) =
      Some (case segments d of
              None \<Rightarrow> replicate (length (time d)) (Some Seg_baseline)
            | Some s \<Rightarrow> s) \<and>
    time (segmentECGData d beats) = time d \<and> voltage (segmentECGData d beats) = voltage d"
proof -
  let ?out = "foldl (segment_beat (time d)) (initial_segments d) beats"
  have w: "well_labelled (length (time d)) ?out"
    by (intro foldl_invariant [where P = "well_labelled (length (time d))"]
        initial_segments_well [OF assms] segment_beat_well)
  have s: "segments (segmentECGData d beats) = Some ?out"
    by (simp add: segmentECGData_def)
  from w have l: "length ?out = length (time d)" and h: "None \<notin> set ?out"
    by (simp_all add: well_labelled_def)
  have e: "time d = [] \<longrightarrow> segments (segmentECGData d beats) = Some []"
  proof
    assume "time d = []"
    with l have "?out = []" by simp
    with s show "segments (segmentECGData d beats) = Some []" by simp
  qed
  have z: "segments (segmentECGData d []) =
      Some (case segments d of
              None \<Rightarrow> replicate (length (time d)) (Some Seg_baseline)
            | Some s \<Rightarrow> s)"
    by (simp add: segmentECGData_def initial_segments_def split: option.split)
  from s l h e z show ?thesis by (simp add: segmentECGData_def)
qed

theorem segmentECGData_coverage_witness:
  "segments \<lparr>time = [Fin (- 1), Fin 0, Fin (1 / 8), Fin (1 / 4), Fin (1 / 2), Fin 1],
      voltage = [Fin 0, Fin 0, Fin 0, Fin 1, Fin 0, Fin 0], segments = None\<rparr> = None \<and>
   segments (segmentECGData
     \<lparr>time = [Fin (- 1), Fin 0, Fin (1 / 8), Fin (1 / 4), Fin (1 / 2), Fin 1],
      voltage = [Fin 0, Fin 0, Fin 0, Fin 1, Fin 0, Fin 0], segments = None\<rparr> [3]) =
     Some [Some Seg_baseline, Some Seg_baseline, Some Seg_p, Some Seg_qrs, Some Seg_t,
       Some Seg_baseline] \<and>
   segments (segmentECGData
     \<lparr>time = [Fin (- 1), Fin 0, Fin (1 / 8), Fin (1 / 4), Fin (1 / 2), Fin 1],
      voltage = [Fin 0, Fin 0, Fin 0, Fin 1, Fin 0, Fin 0], segments = None\<rparr> []) =
     Some [Some Seg_baseline, Some Seg_baseline, Some Seg_baseline, Some Seg_baseline,
       Some Seg_baseline, Some Seg_baseline]"
  using segmentECGData_coverage
    [of "\<lparr>time = [Fin (- 1), Fin 0, Fin (1 / 8), Fin (1 / 4), Fin (1 / 2), Fin 1],
      voltage = [Fin 0, Fin 0, Fin 0, Fin 1, Fin 0, Fin 0], segments = None\<rparr>" "[3]"]
    example_segments
  by (simp add: numeral_eq_Suc)

text \<open>
  C6. On a time array of finite numbers, \<open>segmentECGData\<close> computes the labels that the
  specification describes: the beats in the order of the list, for each the backward
  scan with its stop at \<open>tR - time[i] > 0.25\<close> and its windows for \<open>p\<close> and \<open>qrs\<close>, then the
  forward scan while \<open>time[i] - tR \<le> 0.45\<close> with its windows for \<open>qrs\<close> and \<open>t\<close>, later
  assignments overwriting earlier ones. The differences and the bounds are the binary64
  ones on both sides. Beat indices outside the array label nothing.
\<close>

theorem segmentECGData_scan_order:
  assumes "list_all finite_number (time d)"
  shows "segments (segmentECGData d beats) = Some (spec_segments d beats)"
proof -
  from segment_beat_spec [OF assms]
  have "segment_beat (time d) = spec_segment_beat (time d)" by (simp add: fun_eq_iff)
  then show ?thesis by (simp add: segmentECGData_def spec_segments_def)
qed

theorem segmentECGData_scan_order_witness:
  "list_all finite_number [Fin (- 1), Fin 0, Fin (1 / 8), Fin (1 / 4), Fin (1 / 2), Fin 1] \<and>
   spec_segments
     \<lparr>time = [Fin (- 1), Fin 0, Fin (1 / 8), Fin (1 / 4), Fin (1 / 2), Fin 1],
      voltage = [Fin 0, Fin 0, Fin 0, Fin 1, Fin 0, Fin 0], segments = None\<rparr> [3] =
     [Some Seg_baseline, Some Seg_baseline, Some Seg_p, Some Seg_qrs, Some Seg_t,
      Some Seg_baseline]"
  using segmentECGData_scan_order
    [of "\<lparr>time = [Fin (- 1), Fin 0, Fin (1 / 8), Fin (1 / 4), Fin (1 / 2), Fin 1],
      voltage = [Fin 0, Fin 0, Fin 0, Fin 1, Fin 0, Fin 0], segments = None\<rparr>" "[3]"]
    example_segments
  by (simp add: finite_number_def)

text \<open>
  The finiteness of the time array matters to the forward scan only. On a \<open>NaN\<close> time the
  difference is \<open>NaN\<close>: the code's test \<open>dt > 0.45\<close> is false and its loop goes on to the
  next sample, while a scan that continues while \<open>dt \<le> 0.45\<close> stops there.
\<close>

lemma nan_time_code:
  "segments (segmentECGData
     \<lparr>time = [Fin 0, NaN, Fin (1 / 64)], voltage = [], segments = None\<rparr> [0]) =
   Some [Some Seg_qrs, Some Seg_baseline, Some Seg_qrs]"
  by (simp add: segmentECGData_def initial_segments_def segment_beat_def scan_back.simps
      scan_fwd.simps label_back_def label_fwd_def assign_def elem_at_def num_sub_def num_gt_def
      num_le_def numeral_eq_Suc literals binary64_examples)

lemma nan_time_spec:
  "spec_segments \<lparr>time = [Fin 0, NaN, Fin (1 / 64)], voltage = [], segments = None\<rparr> [0] =
     [Some Seg_qrs, Some Seg_baseline, Some Seg_baseline]"
  by (simp add: spec_segments_def spec_segment_beat_def spec_back_reached_def
      spec_fwd_reached_def initial_segments_def spec_label_back_def assign_def elem_at_def
      num_sub_def num_le_def numeral_eq_Suc upto_rec1 literals binary64_examples)

section \<open>Effects of binary64 on the tests of the code\<close>

text \<open>
  At 250 Hz the samples \<open>0.012\<close> and
  \<open>0.072\<close> are \<open>0.06\<close> seconds apart; their binary64 difference is the binary64 \<open>0.06\<close>
  itself, so the forward test \<open>dt < 0.06\<close> fails and the second sample keeps \<open>baseline\<close>.
  And a first peak at the time \<open>2 ^ -60\<close> fails the refractory test, because
  \<open>2 ^ -60 + 0.25\<close> rounds to \<open>0.25\<close>.
\<close>

lemma literal_0_012: "binary64 (12 / 1000) = Fin (3458764513820541 / 2 ^ 58)"
  using binary64_round [of 59 "12 / 1000"] by (simp add: round_even_def)

lemma literal_0_072: "binary64 (72 / 1000) = Fin (5188146770730811 / 2 ^ 56)"
  using binary64_round [of 56 "72 / 1000"] by (simp add: round_even_def)

lemma boundary_difference:
  "num_sub (binary64 (72 / 1000)) (binary64 (12 / 1000)) = binary64 (6 / 100)"
  unfolding literal_0_012 literal_0_072 literal_0_06
  using binary64_round [of 57 "5188146770730811 / 2 ^ 56 - 3458764513820541 / 2 ^ 58"]
  by (simp add: num_sub_def round_even_def)

lemma boundary_sample_keeps_baseline:
  "segments (segmentECGData
     \<lparr>time = [binary64 (12 / 1000), binary64 (72 / 1000)], voltage = [Fin 0, Fin 0],
      segments = None\<rparr> [0]) =
   Some [Some Seg_qrs, Some Seg_baseline]"
proof -
  have z: "num_sub (binary64 (12 / 1000)) (binary64 (12 / 1000)) = Fin 0"
    unfolding literal_0_012 by (simp add: num_sub_def)
  have b: "scan_back [binary64 (12 / 1000), binary64 (72 / 1000)] (binary64 (12 / 1000))
      [Some Seg_baseline, Some Seg_baseline] 0 = [Some Seg_qrs, Some Seg_baseline]"
    by (simp add: scan_back.simps elem_at_def z [simplified] label_back_def assign_def num_gt_def num_le_def
        literals)
  have f: "scan_fwd [binary64 (12 / 1000), binary64 (72 / 1000)] (binary64 (12 / 1000))
      [Some Seg_qrs, Some Seg_baseline] 1 = [Some Seg_qrs, Some Seg_baseline]"
    by (simp add: scan_fwd.simps elem_at_def boundary_difference [simplified] label_fwd_def num_gt_def
        literals)
  show ?thesis
    by (simp add: segmentECGData_def initial_segments_def segment_beat_def elem_at_def
        b [simplified] f [simplified] numeral_eq_Suc)
qed

lemma tiny_time_absorbed:
  "\<not> num_gt (num_sub (Fin (1 / 2 ^ 60)) (num_neg refractoryPeriod)) refractoryPeriod"
  unfolding refractoryPeriod_def literal_0_25
  using binary64_round [of 54 "1 / 2 ^ 60 + 1 / 4"]
  by (simp add: num_sub_def num_gt_def round_even_def)

end
